theory Spec2Isabelle
  imports Complex_Main "HOL-Library.Multiset"
begin

section \<open>Truck factor: a shallow embedding of the knowledge-ownership engine\<close>

text \<open>
  The Python sources embedded here are \<^verbatim>\<open>compute_factor.py\<close>, \<^verbatim>\<open>blame_parser.py\<close>,
  \<^verbatim>\<open>mail_mapper.py\<close> (\<^verbatim>\<open>read_mailmap\<close>) and the tally helpers and
  \<^verbatim>\<open>compute_ownership\<close> of \<^verbatim>\<open>truck_factor.py\<close>.

  Conventions.
  \<^item> Python \<^verbatim>\<open>int\<close> is \<open>int\<close>; a finite Python \<^verbatim>\<open>float\<close> is a \<open>real\<close>. The decay
    model and the definitions that carry the plain names of the source compute with exact
    reals; the selectors and the knowledge tally are given a second time with the rounding
    of every float operation (the definitions whose names end in \<open>_float\<close>).
  \<^item> A \<^verbatim>\<open>dict\<close> that the code iterates over is an association list in insertion
    order with pairwise distinct keys; a \<^verbatim>\<open>dict\<close> that is only looked up is a map.
  \<^item> A naive \<^verbatim>\<open>datetime\<close> is the number of microseconds since the epoch.
  \<^item> A text file is the list of its lines, each with its line terminator, as iterating
    over the file object yields them. Texts are ASCII: a character is one byte, and a
    character outside ASCII, which the patterns and string methods of Python treat by its
    Unicode properties, is outside the embedding.
  \<^item> Every exception the embedded code can raise is a constructor of \<open>py_error\<close>.
\<close>

subsection \<open>Exceptions and outcomes\<close>

datatype py_error = IndexError | ValueError | ZeroDivisionError | OverflowError | OSError

text \<open>
  A computation stops either because Python raised, or because a power with a negative
  base and a fractional exponent produced a \<^verbatim>\<open>complex\<close> number, or because a float
  operation overflowed to an infinity. The last two are not exceptions in Python; the
  embedding keeps knowledge values real and finite and follows such a run no further.
\<close>

datatype stop = Raised py_error | Complex_valued | Non_finite

subsection \<open>Dictionaries in insertion order\<close>

text \<open>\<^verbatim>\<open>d[k] = v\<close>: an existing key keeps its position, a new key goes last.\<close>

fun dict_set :: "('k \<times> 'v) list \<Rightarrow> 'k \<Rightarrow> 'v \<Rightarrow> ('k \<times> 'v) list" where
  "dict_set [] k v = [(k, v)]"
| "dict_set ((k', v') # d) k v = (if k' = k then (k, v) # d else (k', v') # dict_set d k v)"

text \<open>\<^verbatim>\<open>dict(items)\<close> for a list of pairs.\<close>

definition dict_of_items :: "('k \<times> 'v) list \<Rightarrow> ('k \<times> 'v) list" where
  "dict_of_items items = fold (\<lambda>(k, v) d. dict_set d k v) items []"

text \<open>
  \<^verbatim>\<open>sorted(d.items(), key=lambda item: item[1], reverse=True)\<close>: a stable sort, descending
  by value; entries with equal values keep their original order.
\<close>

definition sorted_desc :: "('k \<times> 'v::{linorder, uminus}) list \<Rightarrow> ('k \<times> 'v) list" where
  "sorted_desc items = sort_key (\<lambda>item. - snd item) items"

subsection \<open>The truck-factor selectors (\<^verbatim>\<open>compute_factor.py\<close>)\<close>

record AuthorTotalAuthorship =
  f_author :: string
  files_authored :: int
  total_files :: int

record AuthorTotalKnowledge =
  k_author :: string
  author_contribution :: real
  total_knowledge :: real

text \<open>
  The loop of \<^verbatim>\<open>compute_truck_factor_from_file_authorship\<close> over the sorted entries, with
  the list built so far and \<^verbatim>\<open>knowledge_left\<close> as loop state. The true division
  \<^verbatim>\<open>knowledge_left / knowledge\<close> raises when \<^verbatim>\<open>knowledge\<close> is zero. In this
  subsection subtraction and division are exact; the selectors with the rounding of
  Python's float operations follow further down.
\<close>

fun authorship_loop ::
  "int \<Rightarrow> real \<Rightarrow> (string \<times> int) list \<Rightarrow> AuthorTotalAuthorship list \<Rightarrow> int
    \<Rightarrow> py_error + AuthorTotalAuthorship list" where
  "authorship_loop knowledge critical_loss [] truck_factor knowledge_left = Inr truck_factor"
| "authorship_loop knowledge critical_loss ((author, n) # rest) truck_factor knowledge_left =
     (let truck_factor' = truck_factor @
            [\<lparr>f_author = author, files_authored = n, total_files = knowledge\<rparr>];
          knowledge_left' = knowledge_left - n
      in if knowledge = 0 then Inl ZeroDivisionError
         else if real_of_int knowledge_left' / real_of_int knowledge < critical_loss
           then Inr truck_factor'
         else authorship_loop knowledge critical_loss rest truck_factor' knowledge_left')"

definition compute_truck_factor_from_file_authorship ::
  "int \<Rightarrow> (string \<times> int) list \<Rightarrow> real \<Rightarrow> py_error + AuthorTotalAuthorship list" where
  "compute_truck_factor_from_file_authorship knowledge authored_files critical_loss =
     (let knowledge_left = knowledge;
          sorted_authors = dict_of_items (sorted_desc authored_files)
      in authorship_loop knowledge critical_loss sorted_authors [] knowledge_left)"

fun knowledge_loop ::
  "real \<Rightarrow> real \<Rightarrow> (string \<times> real) list \<Rightarrow> AuthorTotalKnowledge list \<Rightarrow> real
    \<Rightarrow> py_error + AuthorTotalKnowledge list" where
  "knowledge_loop total_kb critical_loss [] truck_factor knowledge_left = Inr truck_factor"
| "knowledge_loop total_kb critical_loss ((owner, knowledge) # rest) truck_factor knowledge_left =
     (let truck_factor' = truck_factor @
            [\<lparr>k_author = owner, author_contribution = knowledge, total_knowledge = total_kb\<rparr>];
          knowledge_left' = knowledge_left - knowledge
      in if total_kb = 0 then Inl ZeroDivisionError
         else if knowledge_left' / total_kb \<le> critical_loss
           then Inr truck_factor'
         else knowledge_loop total_kb critical_loss rest truck_factor' knowledge_left')"

definition compute_truck_factor_from_knowledge_base ::
  "real \<Rightarrow> (string \<times> real) list \<Rightarrow> real \<Rightarrow> py_error + AuthorTotalKnowledge list" where
  "compute_truck_factor_from_knowledge_base total_kb knowledge_base critical_loss =
     (let knowledge_left = total_kb;
          sorted_owners = dict_of_items (sorted_desc knowledge_base)
      in knowledge_loop total_kb critical_loss sorted_owners [] knowledge_left)"

text \<open>The entries the two selectors emit for a sorted tally.\<close>

definition authorship_entries :: "int \<Rightarrow> (string \<times> int) list \<Rightarrow> AuthorTotalAuthorship list" where
  "authorship_entries t items =
     map (\<lambda>(a, n). \<lparr>f_author = a, files_authored = n, total_files = t\<rparr>) items"

definition knowledge_entries :: "real \<Rightarrow> (string \<times> real) list \<Rightarrow> AuthorTotalKnowledge list" where
  "knowledge_entries t items =
     map (\<lambda>(a, v). \<lparr>k_author = a, author_contribution = v, total_knowledge = t\<rparr>) items"

text \<open>
  \<open>remaining t items k\<close> is the running remainder after the first \<open>k\<close> entries of
  \<open>items\<close> have been subtracted from \<open>t\<close>.
\<close>

definition remaining :: "'v::ab_group_add \<Rightarrow> ('k \<times> 'v) list \<Rightarrow> nat \<Rightarrow> 'v" where
  "remaining t items k = t - sum_list (map snd (take k items))"

subsection \<open>String operations of Python used by the parsers\<close>

text \<open>\<^verbatim>\<open>s.startswith(p)\<close>; \<^verbatim>\<open>re.match\<close> with a literal pattern is this test.\<close>

definition startswith :: "string \<Rightarrow> string \<Rightarrow> bool" where
  "startswith p s = (take (length p) s = p)"

text \<open>
  \<^verbatim>\<open>s.split(sep)\<close> for a non-empty separator: the pieces between the non-overlapping
  occurrences of \<open>sep\<close>, found from the left. The result is never empty. (Python raises
  \<^verbatim>\<open>ValueError\<close> on an empty separator; every call site passes a literal, non-empty one.)
\<close>

function py_split_from :: "string \<Rightarrow> string \<Rightarrow> string \<Rightarrow> string list" where
  "py_split_from sep cur [] = [rev cur]"
| "py_split_from sep cur (c # s) =
     (if sep \<noteq> [] \<and> startswith sep (c # s)
      then rev cur # py_split_from sep [] (drop (length sep) (c # s))
      else py_split_from sep (c # cur) s)"
  by pat_completeness auto
termination
  by (relation "measure (\<lambda>(sep, cur, s). length s)") auto

definition py_split :: "string \<Rightarrow> string \<Rightarrow> string list" where
  "py_split sep s = py_split_from sep [] s"

text \<open>\<^verbatim>\<open>sep.join(pieces)\<close>.\<close>

fun py_join :: "string \<Rightarrow> string list \<Rightarrow> string" where
  "py_join sep [] = []"
| "py_join sep [x] = x"
| "py_join sep (x # y # ys) = x @ sep @ py_join sep (y # ys)"



text \<open>The class \<^verbatim>\<open>[\d\w]\<close> within ASCII: letters, digits and the underscore.\<close>

definition is_word :: "char \<Rightarrow> bool" where
  "is_word c = (let n = (of_char c :: nat) in
     (48 \<le> n \<and> n \<le> 57) \<or> (65 \<le> n \<and> n \<le> 90) \<or> n = 95 \<or> (97 \<le> n \<and> n \<le> 122))"

definition digit_val :: "char \<Rightarrow> int option" where
  "digit_val c = (let n = (of_char c :: nat) in
     if 48 \<le> n \<and> n \<le> 57 then Some (int n - 48) else None)"

text \<open>
  The digits of a decimal literal as \<^verbatim>\<open>int\<close> accepts them: at least one digit, single
  underscores allowed between digits only. The flag says that the previous character was
  a digit.
\<close>

fun parse_digits :: "int \<Rightarrow> bool \<Rightarrow> string \<Rightarrow> int option" where
  "parse_digits acc prev_digit [] = (if prev_digit then Some acc else None)"
| "parse_digits acc prev_digit (c # cs) =
     (if c = CHR ''_'' then (if prev_digit then parse_digits acc False cs else None)
      else (case digit_val c of
              None \<Rightarrow> None
            | Some d \<Rightarrow> parse_digits (10 * acc + d) True cs))"

text \<open>
  \<^verbatim>\<open>int(s)\<close> for a string: leading and trailing whitespace is skipped, one sign is
  allowed, and anything else raises \<^verbatim>\<open>ValueError\<close>. The whitespace that \<^verbatim>\<open>int\<close> skips in
  an ASCII string is narrower than that of \<^verbatim>\<open>str.strip\<close>: tab, line feed, vertical tab,
  form feed, carriage return and space, without the separators \<^verbatim>\<open>0x1c\<close> to \<^verbatim>\<open>0x1f\<close>.
  (The limit on the number of digits of recent Python versions is not modelled.)
\<close>

definition is_int_space :: "char \<Rightarrow> bool" where
  "is_int_space c = (let n = (of_char c :: nat) in (9 \<le> n \<and> n \<le> 13) \<or> n = 32)"

definition py_int :: "string \<Rightarrow> py_error + int" where
  "py_int s =
     (case rev (dropWhile is_int_space (rev (dropWhile is_int_space s))) of
        [] \<Rightarrow> Inl ValueError
      | c # cs \<Rightarrow>
          (case (if c = CHR ''-'' then map_option uminus (parse_digits 0 False cs)
                 else if c = CHR ''+'' then parse_digits 0 False cs
                 else parse_digits 0 False (c # cs)) of
             None \<Rightarrow> Inl ValueError
           | Some n \<Rightarrow> Inr n))"

text \<open>\<^verbatim>\<open>xs[i]\<close> for a non-negative literal index.\<close>

definition py_index :: "'a list \<Rightarrow> nat \<Rightarrow> py_error + 'a" where
  "py_index xs i = (if i < length xs then Inr (xs ! i) else Inl IndexError)"

subsection \<open>Dates\<close>

text \<open>
  \<^verbatim>\<open>datetime.utcfromtimestamp(n)\<close> for an integer number of seconds: defined for the years
  1 to 9999. Outside it raises: \<^verbatim>\<open>ValueError\<close> when the year is out of range,
  \<^verbatim>\<open>OSError\<close> when the C library cannot break the time down, and \<^verbatim>\<open>OverflowError\<close> when
  the number does not fit the platform's \<^verbatim>\<open>time_t\<close>. The bounds of the last two cases are
  those of a 64-bit Linux platform.
\<close>

definition utcfromtimestamp :: "int \<Rightarrow> py_error + int" where
  "utcfromtimestamp n =
     (if - 62135596800 \<le> n \<and> n \<le> 253402300799 then Inr (n * 1000000)
      else if - 67768040609740800 \<le> n \<and> n \<le> 67768036191676799 then Inl ValueError
      else if - 9223372036854775808 \<le> n \<and> n \<le> 9223372036854775807 then Inl OSError
      else Inl OverflowError)"

text \<open>
  \<^verbatim>\<open>timedelta.days\<close> of a difference of \<open>td\<close> microseconds: a \<^verbatim>\<open>timedelta\<close> is normalised
  so that its seconds and microseconds are non-negative, hence the days are the floor.
\<close>

definition timedelta_days :: "int \<Rightarrow> int" where
  "timedelta_days td = td div 86400000000"

subsection \<open>The blame-log parser (\<^verbatim>\<open>parse_log\<close>)\<close>

text \<open>The dataclass \<^verbatim>\<open>Commit\<close>; its field \<^verbatim>\<open>file\<close> is \<open>file_path\<close> here.\<close>

record Commit =
  lines :: int
  date :: int
  file_path :: string

text \<open>\<^verbatim>\<open>commits[k].append(c)\<close> on a \<^verbatim>\<open>defaultdict(list)\<close>.\<close>

fun dict_append :: "('k \<times> 'v list) list \<Rightarrow> 'k \<Rightarrow> 'v \<Rightarrow> ('k \<times> 'v list) list" where
  "dict_append [] k c = [(k, [c])]"
| "dict_append ((k', cs) # d) k c =
     (if k' = k then (k', cs @ [c]) # d else (k', cs) # dict_append d k c)"

text \<open>The local variables of \<^verbatim>\<open>parse_log\<close>.\<close>

record parse_state =
  commits :: "(string \<times> Commit list) list"
  prev :: int
  author_name :: string
  authorEmail :: string
  timestamp :: int
  authors :: "(string \<times> string) list"

text \<open>\<^verbatim>\<open>re.match(r"[\d\w]{40}", line)\<close>: the line starts with forty word characters.\<close>

definition sha_line :: "string \<Rightarrow> bool" where
  "sha_line line = (40 \<le> length line \<and> list_all is_word (take 40 line))"

text \<open>
  One iteration of the loop over the lines of the log. The tests are made in the order of
  the source; the author-time branch has no \<^verbatim>\<open>continue\<close> and falls through to the
  author-mail test.
\<close>

definition parse_line :: "string \<Rightarrow> parse_state \<Rightarrow> string \<Rightarrow> py_error + parse_state" where
  "parse_line blame_log_path st line =
     (if sha_line line then
        (let st1 = (if prev st > 0
                    then st\<lparr>commits := dict_append (commits st) (authorEmail st)
                           \<lparr>lines = prev st, date = timestamp st, file_path = blame_log_path\<rparr>\<rparr>
                    else st)
         in case py_int (last (py_split '' '' line)) of
              Inl e \<Rightarrow> Inl e
            | Inr n \<Rightarrow> Inr (st1\<lparr>prev := n\<rparr>))
      else if startswith ''author '' line then
        Inr (st\<lparr>author_name := py_join '' '' (tl (py_split '' '' line))\<rparr>)
      else
        (case (if startswith ''author-time '' line then
                 (case py_index (py_split '' '' line) 1 of
                    Inl e \<Rightarrow> Inl e
                  | Inr field \<Rightarrow>
                      (case py_int field of
                         Inl e \<Rightarrow> Inl e
                       | Inr n \<Rightarrow>
                           (case utcfromtimestamp n of
                              Inl e \<Rightarrow> Inl e
                            | Inr t \<Rightarrow> Inr (st\<lparr>timestamp := t\<rparr>))))
               else Inr st) of
           Inl e \<Rightarrow> Inl e
         | Inr st2 \<Rightarrow>
             (if startswith ''author-mail '' line then
                (let mail = hd (py_split ''>'' (last (py_split ''<''
                              (last (py_split ''author-mail '' line)))))
                 in Inr (st2\<lparr>authorEmail := mail,
                             authors := dict_set (authors st2) mail (author_name st2)\<rparr>))
              else Inr st2)))"

fun parse_lines :: "string \<Rightarrow> parse_state \<Rightarrow> string list \<Rightarrow> py_error + parse_state" where
  "parse_lines blame_log_path st [] = Inr st"
| "parse_lines blame_log_path st (line # rest) =
     (case parse_line blame_log_path st line of
        Inl e \<Rightarrow> Inl e
      | Inr st' \<Rightarrow> parse_lines blame_log_path st' rest)"

definition parse_init :: parse_state where
  "parse_init = \<lparr>commits = [], prev = 0, author_name = [], authorEmail = [],
                 timestamp = 0, authors = []\<rparr>"

text \<open>
  \<^verbatim>\<open>parse_log\<close>, given the path and the lines of the file at that path. The last pending
  fragment is appended after the loop, whatever its line count.
\<close>

definition parse_log :: "string \<Rightarrow> string list \<Rightarrow> py_error + (string \<times> Commit list) list" where
  "parse_log blame_log_path log_lines =
     (case parse_lines blame_log_path parse_init log_lines of
        Inl e \<Rightarrow> Inl e
      | Inr st \<Rightarrow>
          Inr (dict_append (commits st) (authorEmail st)
                 \<lparr>lines = prev st, date = timestamp st, file_path = blame_log_path\<rparr>))"

subsection \<open>The decay model (\<^verbatim>\<open>knowledge_retention_function\<close>, \<^verbatim>\<open>compute_lines_value\<close>)\<close>

text \<open>
  \<^verbatim>\<open>x ** y\<close> for a float (or an int converted to one) \<open>x\<close> and a float \<open>y\<close>:
  anything to the power zero is one; zero to a negative power raises; a negative base with
  a fractional exponent gives a \<^verbatim>\<open>complex\<close> result.
\<close>

definition py_pow :: "real \<Rightarrow> real \<Rightarrow> stop + real" where
  "py_pow x y =
     (if y = 0 then Inr 1
      else if x = 0 then (if y < 0 then Inl (Raised ZeroDivisionError) else Inr 0)
      else if x < 0 then
        (if y \<in> \<int> then Inr ((if even \<lfloor>y\<rfloor> then 1 else - 1) * ((- x) powr y))
         else Inl Complex_valued)
      else Inr (x powr y))"

definition knowledge_retention_function :: "int \<Rightarrow> real \<Rightarrow> real \<Rightarrow> real \<Rightarrow> stop + real" where
  "knowledge_retention_function t a b beta =
     (case py_pow (real_of_int (1 + t)) (- beta) of
        Inl s \<Rightarrow> Inl s
      | Inr p \<Rightarrow> Inr (a + (1 - a) * b * p))"

text \<open>
  \<^verbatim>\<open>compute_lines_value\<close>. The module \<^verbatim>\<open>constants\<close> is not among the sources, so its
  \<^verbatim>\<open>INITIAL_TIMESTAMP\<close> is the parameter \<open>initial_timestamp\<close>.
\<close>

definition compute_lines_value :: "int \<Rightarrow> Commit \<Rightarrow> stop + real" where
  "compute_lines_value initial_timestamp commit =
     (let timeDelta = initial_timestamp - date commit;
          asymptote = 0.19;
          b = 0.78;
          beta = 0.68
      in case knowledge_retention_function (timedelta_days timeDelta) asymptote b beta of
           Inl s \<Rightarrow> Inl s
         | Inr weightFactor \<Rightarrow> Inr (real_of_int (lines commit) * weightFactor))"

fun contribution_loop :: "int \<Rightarrow> real \<Rightarrow> Commit list \<Rightarrow> stop + real" where
  "contribution_loop initial_timestamp v [] = Inr v"
| "contribution_loop initial_timestamp v (commit # rest) =
     (case compute_lines_value initial_timestamp commit of
        Inl s \<Rightarrow> Inl s
      | Inr w \<Rightarrow> contribution_loop initial_timestamp (v + w) rest)"

definition compute_contribution_value :: "int \<Rightarrow> Commit list \<Rightarrow> stop + real" where
  "compute_contribution_value initial_timestamp cs = contribution_loop initial_timestamp 0 cs"

subsection \<open>Per-file results (\<^verbatim>\<open>compute_author\<close>, \<^verbatim>\<open>use_mailmap\<close>)\<close>

text \<open>
  \<^verbatim>\<open>AuthorContribution\<close>; the code fills \<^verbatim>\<open>contributions\<close> with plain pairs of an author
  and a value.
\<close>

record AuthorContribution =
  author :: string
  contributions :: "(string \<times> real) list"

fun author_weights :: "int \<Rightarrow> (string \<times> Commit list) list \<Rightarrow> stop + (string \<times> real) list" where
  "author_weights initial_timestamp [] = Inr []"
| "author_weights initial_timestamp ((a, cs) # rest) =
     (case compute_contribution_value initial_timestamp cs of
        Inl s \<Rightarrow> Inl s
      | Inr v \<Rightarrow>
          (case author_weights initial_timestamp rest of
             Inl s \<Rightarrow> Inl s
           | Inr ws \<Rightarrow> Inr ((a, v) # ws)))"

text \<open>
  \<^verbatim>\<open>max(xs, key=operator.itemgetter(1))\<close>: the first entry of greatest value; raises on an
  empty list.
\<close>

definition py_max_by_value :: "('k \<times> real) list \<Rightarrow> py_error + ('k \<times> real)" where
  "py_max_by_value xs =
     (case xs of
        [] \<Rightarrow> Inl ValueError
      | x # rest \<Rightarrow> Inr (fold (\<lambda>y m. if snd y > snd m then y else m) rest x))"

definition compute_author :: "int \<Rightarrow> (string \<times> Commit list) list \<Rightarrow> stop + AuthorContribution" where
  "compute_author initial_timestamp author_contributions =
     (case author_weights initial_timestamp author_contributions of
        Inl s \<Rightarrow> Inl s
      | Inr authorWeight \<Rightarrow>
          (case py_max_by_value authorWeight of
             Inl e \<Rightarrow> Inl (Raised e)
           | Inr m \<Rightarrow> Inr \<lparr>author = fst m, contributions = authorWeight\<rparr>))"

text \<open>\<^verbatim>\<open>d[k] += xs\<close> on a \<^verbatim>\<open>defaultdict(list)\<close>: a missing key starts from the empty list.\<close>

fun dict_extend :: "('k \<times> 'v list) list \<Rightarrow> 'k \<Rightarrow> 'v list \<Rightarrow> ('k \<times> 'v list) list" where
  "dict_extend [] k xs = [(k, xs)]"
| "dict_extend ((k', ys) # d) k xs =
     (if k' = k then (k', ys @ xs) # d else (k', ys) # dict_extend d k xs)"

text \<open>
  \<^verbatim>\<open>use_mailmap\<close>. The loop runs over the keys of \<^verbatim>\<open>contributions\<close> and reads the value
  of each key, that is, over its items in order.
\<close>

definition use_mailmap ::
  "(string \<times> Commit list) list \<Rightarrow> (string \<rightharpoonup> string) \<Rightarrow> (string \<times> Commit list) list" where
  "use_mailmap contribs mail_to_mail =
     fold (\<lambda>(authorMail, cs) mappedContributions.
             (case mail_to_mail authorMail of
                Some mappedMail \<Rightarrow> dict_extend mappedContributions mappedMail cs
              | None \<Rightarrow> dict_extend mappedContributions authorMail cs))
          contribs []"

definition compute_knowledge_ownership ::
  "int \<Rightarrow> string \<Rightarrow> string list \<Rightarrow> (string \<rightharpoonup> string) \<Rightarrow> stop + AuthorContribution" where
  "compute_knowledge_ownership initial_timestamp blame_log log_lines mail_to_mail =
     (case parse_log blame_log log_lines of
        Inl e \<Rightarrow> Inl (Raised e)
      | Inr author_contributions \<Rightarrow>
          compute_author initial_timestamp (use_mailmap author_contributions mail_to_mail))"

subsection \<open>The global tallies (\<^verbatim>\<open>truck_factor.py\<close>)\<close>

definition map_add_or_increment_knowledge ::
  "(string \<times> real) list \<Rightarrow> (string \<times> real) list \<Rightarrow> (string \<times> real) list" where
  "map_add_or_increment_knowledge knowledge_base file_knowledge_base =
     fold (\<lambda>(a, knowledge) kb.
             (case map_of kb a of
                None \<Rightarrow> dict_set kb a knowledge
              | Some w \<Rightarrow> (let new_weight = w + knowledge in dict_set kb a new_weight)))
          file_knowledge_base knowledge_base"

definition map_add_or_increment_authorship :: "(string \<times> int) list \<Rightarrow> string \<Rightarrow> (string \<times> int) list" where
  "map_add_or_increment_authorship auhtored_files a =
     (case map_of auhtored_files a of
        None \<Rightarrow> dict_set auhtored_files a 1
      | Some n \<Rightarrow> dict_set auhtored_files a (n + 1))"

text \<open>The body of the loop of \<^verbatim>\<open>compute_ownership\<close> once the per-file result is there.\<close>

definition tally_step ::
  "AuthorContribution \<Rightarrow> (string \<times> int) list \<times> (string \<times> real) list
     \<Rightarrow> (string \<times> int) list \<times> (string \<times> real) list" where
  "tally_step author_contributions tallies =
     (map_add_or_increment_authorship (fst tallies) (author author_contributions),
      map_add_or_increment_knowledge (snd tallies) (contributions author_contributions))"

text \<open>Folding per-file results into the two tallies, in the order given.\<close>

definition fold_results ::
  "AuthorContribution list \<Rightarrow> (string \<times> int) list \<times> (string \<times> real) list
     \<Rightarrow> (string \<times> int) list \<times> (string \<times> real) list" where
  "fold_results results tallies = fold tally_step results tallies"

text \<open>
  \<^verbatim>\<open>compute_ownership\<close>. Reading the mailmap and the log files is outside the embedding:
  the function takes the mapping that \<^verbatim>\<open>get_mailmap\<close> returned and, for each log, its path
  and its lines. It returns \<^verbatim>\<open>(authored_files, knowledge_base)\<close>.
\<close>

fun ownership_loop ::
  "int \<Rightarrow> (string \<rightharpoonup> string) \<Rightarrow> (string \<times> string list) list
     \<Rightarrow> (string \<times> int) list \<times> (string \<times> real) list
     \<Rightarrow> stop + ((string \<times> int) list \<times> (string \<times> real) list)" where
  "ownership_loop initial_timestamp mail_to_mail [] tallies = Inr tallies"
| "ownership_loop initial_timestamp mail_to_mail ((path, log_lines) # rest) tallies =
     (case compute_knowledge_ownership initial_timestamp path log_lines mail_to_mail of
        Inl s \<Rightarrow> Inl s
      | Inr author_contributions \<Rightarrow>
          ownership_loop initial_timestamp mail_to_mail rest
            (tally_step author_contributions tallies))"

definition compute_ownership ::
  "int \<Rightarrow> (string \<rightharpoonup> string) \<Rightarrow> (string \<times> string list) list
     \<Rightarrow> stop + ((string \<times> int) list \<times> (string \<times> real) list)" where
  "compute_ownership initial_timestamp mail_to_mail logs =
     ownership_loop initial_timestamp mail_to_mail logs ([], [])"

subsection \<open>Reading a mailmap (\<^verbatim>\<open>read_mailmap\<close>)\<close>



subsection \<open>Floating-point arithmetic of Python\<close>

text \<open>
  A Python \<^verbatim>\<open>float\<close> is an IEEE 754 binary64 number, and \<^verbatim>\<open>+\<close>, \<^verbatim>\<open>-\<close> and \<^verbatim>\<open>/\<close> on floats
  return the exact result rounded to the nearest such number, ties to the one with an even
  significand. A finite float is a real number here; \<open>round_double\<close> is that rounding: the
  result is a multiple of the unit in the last place \<open>2 ^ (e - 52)\<close>, where \<open>e\<close> is the
  binary exponent of the argument, not below \<open>-1022\<close> (the subnormal range).
\<close>

definition round_half_even :: "real \<Rightarrow> int" where
  "round_half_even r =
     (let f = \<lfloor>r\<rfloor>; d = r - of_int f
      in if d < 1 / 2 then f else if 1 / 2 < d then f + 1 else if even f then f else f + 1)"

definition round_double :: "real \<Rightarrow> real" where
  "round_double x =
     (if x = 0 then 0
      else (let e = max \<lfloor>log 2 \<bar>x\<bar>\<rfloor> (- 1022);
                u = 2 powr real_of_int (e - 52)
            in of_int (round_half_even (x / u)) * u))"

text \<open>
  A rounded result is a finite float when its magnitude is below \<open>2 ^ 1024\<close>; otherwise the
  operation overflows.
\<close>

definition finite_double :: "real \<Rightarrow> bool" where
  "finite_double r = (\<bar>r\<bar> < 2 ^ 1024)"

text \<open>
  Float subtraction, addition and division. An overflowing operation returns an infinity
  in Python and raises nothing; the embedding keeps floats finite and follows such a run
  no further (\<open>Non_finite\<close>). Division by a zero float raises.
\<close>

definition float_sub :: "real \<Rightarrow> real \<Rightarrow> stop + real" where
  "float_sub x y =
     (let r = round_double (x - y) in if finite_double r then Inr r else Inl Non_finite)"

definition float_add :: "real \<Rightarrow> real \<Rightarrow> stop + real" where
  "float_add x y =
     (let r = round_double (x + y) in if finite_double r then Inr r else Inl Non_finite)"

definition float_div :: "real \<Rightarrow> real \<Rightarrow> stop + real" where
  "float_div x y =
     (if y = 0 then Inl (Raised ZeroDivisionError)
      else (let r = round_double (x / y) in if finite_double r then Inr r else Inl Non_finite))"

text \<open>
  \<^verbatim>\<open>a / b\<close> for two ints: the exact quotient, correctly rounded to a float; it raises when
  the divisor is zero and when the result is too large for a float.
\<close>

definition int_true_divide :: "int \<Rightarrow> int \<Rightarrow> py_error + real" where
  "int_true_divide a b =
     (if b = 0 then Inl ZeroDivisionError
      else (let r = round_double (real_of_int a / real_of_int b)
            in if finite_double r then Inr r else Inl OverflowError))"

subsection \<open>The selectors with float arithmetic\<close>

text \<open>
  The two selectors as Python runs them. In \<^verbatim>\<open>compute_truck_factor_from_file_authorship\<close>
  the counts are ints, so the subtraction is exact and only the true division rounds. In
  \<^verbatim>\<open>compute_truck_factor_from_knowledge_base\<close> the values are floats, so the subtraction
  and the division both round. The zero test of the division is made first: the
  subtraction before it raises nothing.
\<close>

fun authorship_loop_float ::
  "int \<Rightarrow> real \<Rightarrow> (string \<times> int) list \<Rightarrow> AuthorTotalAuthorship list \<Rightarrow> int
    \<Rightarrow> py_error + AuthorTotalAuthorship list" where
  "authorship_loop_float knowledge critical_loss [] truck_factor knowledge_left = Inr truck_factor"
| "authorship_loop_float knowledge critical_loss ((a, n) # rest) truck_factor knowledge_left =
     (let truck_factor' = truck_factor @
            [\<lparr>f_author = a, files_authored = n, total_files = knowledge\<rparr>];
          knowledge_left' = knowledge_left - n
      in case int_true_divide knowledge_left' knowledge of
           Inl e \<Rightarrow> Inl e
         | Inr ratio \<Rightarrow>
             if ratio < critical_loss then Inr truck_factor'
             else authorship_loop_float knowledge critical_loss rest truck_factor' knowledge_left')"

definition compute_truck_factor_from_file_authorship_float ::
  "int \<Rightarrow> (string \<times> int) list \<Rightarrow> real \<Rightarrow> py_error + AuthorTotalAuthorship list" where
  "compute_truck_factor_from_file_authorship_float knowledge authored_files critical_loss =
     (let knowledge_left = knowledge;
          sorted_authors = dict_of_items (sorted_desc authored_files)
      in authorship_loop_float knowledge critical_loss sorted_authors [] knowledge_left)"

fun knowledge_loop_float ::
  "real \<Rightarrow> real \<Rightarrow> (string \<times> real) list \<Rightarrow> AuthorTotalKnowledge list \<Rightarrow> real
    \<Rightarrow> stop + AuthorTotalKnowledge list" where
  "knowledge_loop_float total_kb critical_loss [] truck_factor knowledge_left = Inr truck_factor"
| "knowledge_loop_float total_kb critical_loss ((a, knowledge) # rest) truck_factor knowledge_left =
     (let truck_factor' = truck_factor @
            [\<lparr>k_author = a, author_contribution = knowledge, total_knowledge = total_kb\<rparr>]
      in if total_kb = 0 then Inl (Raised ZeroDivisionError)
         else (case float_sub knowledge_left knowledge of
                 Inl s \<Rightarrow> Inl s
               | Inr knowledge_left' \<Rightarrow>
                   (case float_div knowledge_left' total_kb of
                      Inl s \<Rightarrow> Inl s
                    | Inr ratio \<Rightarrow>
                        if ratio \<le> critical_loss then Inr truck_factor'
                        else knowledge_loop_float total_kb critical_loss rest truck_factor'
                               knowledge_left')))"

definition compute_truck_factor_from_knowledge_base_float ::
  "real \<Rightarrow> (string \<times> real) list \<Rightarrow> real \<Rightarrow> stop + AuthorTotalKnowledge list" where
  "compute_truck_factor_from_knowledge_base_float total_kb knowledge_base critical_loss =
     (let knowledge_left = total_kb;
          sorted_owners = dict_of_items (sorted_desc knowledge_base)
      in knowledge_loop_float total_kb critical_loss sorted_owners [] knowledge_left)"

text \<open>
  The running remainder of the knowledge selector after \<open>k\<close> entries, each subtraction
  rounded, and the ratios the two selectors compare with the critical loss after \<open>k\<close>
  entries.
\<close>

definition float_remaining :: "real \<Rightarrow> ('k \<times> real) list \<Rightarrow> nat \<Rightarrow> real" where
  "float_remaining t items k = foldl (\<lambda>r v. round_double (r - v)) t (map snd (take k items))"

definition authorship_ratio :: "int \<Rightarrow> ('k \<times> int) list \<Rightarrow> nat \<Rightarrow> real" where
  "authorship_ratio t items k = round_double (real_of_int (remaining t items k) / real_of_int t)"

definition knowledge_ratio :: "real \<Rightarrow> ('k \<times> real) list \<Rightarrow> nat \<Rightarrow> real" where
  "knowledge_ratio t items k = round_double (float_remaining t items k / t)"

subsection \<open>The knowledge tally with float arithmetic\<close>

text \<open>
  \<^verbatim>\<open>map_add_or_increment_knowledge\<close> as Python runs it: the sum for an identity that is
  already in the tally is a float addition. The authorship tally holds ints and is the one
  above.
\<close>

fun map_add_or_increment_knowledge_float ::
  "(string \<times> real) list \<Rightarrow> (string \<times> real) list \<Rightarrow> stop + (string \<times> real) list" where
  "map_add_or_increment_knowledge_float knowledge_base [] = Inr knowledge_base"
| "map_add_or_increment_knowledge_float knowledge_base ((a, knowledge) # rest) =
     (case map_of knowledge_base a of
        None \<Rightarrow> map_add_or_increment_knowledge_float (dict_set knowledge_base a knowledge) rest
      | Some w \<Rightarrow>
          (case float_add w knowledge of
             Inl s \<Rightarrow> Inl s
           | Inr new_weight \<Rightarrow>
               map_add_or_increment_knowledge_float (dict_set knowledge_base a new_weight) rest))"

fun fold_results_float ::
  "AuthorContribution list \<Rightarrow> (string \<times> int) list \<times> (string \<times> real) list
     \<Rightarrow> stop + ((string \<times> int) list \<times> (string \<times> real) list)" where
  "fold_results_float [] tallies = Inr tallies"
| "fold_results_float (r # rest) tallies =
     (case map_add_or_increment_knowledge_float (snd tallies) (contributions r) of
        Inl s \<Rightarrow> Inl s
      | Inr knowledge_base \<Rightarrow>
          fold_results_float rest
            (map_add_or_increment_authorship (fst tallies) (author r), knowledge_base))"

subsection \<open>Specification-level notions\<close>

text \<open>
  The number of entries a selector takes from a sorted tally of \<open>len\<close> entries, in the
  words of the specification: it stops, inclusive of the entry just appended, as soon as
  the threshold is crossed, and returns the whole list when the loop is exhausted. Here
  \<open>crossed k\<close> says that the threshold is crossed after \<open>k\<close> entries have been appended;
  crossing at the last entry and not crossing at all both give the whole list.
\<close>

definition stop_index :: "(nat \<Rightarrow> bool) \<Rightarrow> nat \<Rightarrow> nat" where
  "stop_index crossed len = (case List.find crossed [1..<len] of Some k \<Rightarrow> k | None \<Rightarrow> len)"

text \<open>
  The synthetic two-fragment blame log of the specification: a header with count 5 and the
  metadata of Alice, then a header with count 3 and the metadata of Bob.
\<close>

definition two_fragment_log :: "string list" where
  "two_fragment_log =
     [''aaaaaaaaaaaaaaaaaaaaaaaaaaaaaaaaaaaaaaaa 1 1 5'' @ [CHR 0x0A],
      ''author Alice'' @ [CHR 0x0A],
      ''author-mail <alice@x.com>'' @ [CHR 0x0A],
      ''author-time 0'' @ [CHR 0x0A],
      ''bbbbbbbbbbbbbbbbbbbbbbbbbbbbbbbbbbbbbbbb 2 2 3'' @ [CHR 0x0A],
      ''author Bob'' @ [CHR 0x0A],
      ''author-mail <bob@x.com>'' @ [CHR 0x0A],
      ''author-time 0'' @ [CHR 0x0A]]"

text \<open>
  Identity resolution in the words of the specification: a raw email maps to its canonical
  email when the mapping lists it, and to itself otherwise.
\<close>

definition resolve :: "(string \<rightharpoonup> string) \<Rightarrow> string \<Rightarrow> string" where
  "resolve mail_to_mail mail =
     (case mail_to_mail mail of Some canonical \<Rightarrow> canonical | None \<Rightarrow> mail)"

text \<open>
  The commits of all raw emails that resolve to the identity \<open>c\<close>, in the order of the
  contributions.
\<close>

definition commits_under ::
  "(string \<rightharpoonup> string) \<Rightarrow> (string \<times> Commit list) list \<Rightarrow> string \<Rightarrow> Commit list" where
  "commits_under m contribs c = concat (map snd (filter (\<lambda>(e, cs). resolve m e = c) contribs))"

text \<open>A small per-file contributions dictionary and a mailmap with one alias.\<close>

definition sample_contributions :: "(string \<times> Commit list) list" where
  "sample_contributions =
     [(''ann@x.com'', [\<lparr>lines = 5, date = 0, file_path = ''f.log''\<rparr>]),
      (''bob@x.com'', [\<lparr>lines = 3, date = 0, file_path = ''f.log''\<rparr>]),
      (''ann@old.com'', [\<lparr>lines = 2, date = 86400000000, file_path = ''f.log''\<rparr>])]"

definition sample_mailmap :: "string \<rightharpoonup> string" where
  "sample_mailmap = [''ann@old.com'' \<mapsto> ''ann@x.com'']"


text \<open>
  What one per-file result adds for the identity \<open>a\<close>: the sum of its contribution values
  listed under \<open>a\<close>, and one file when \<open>a\<close> is its primary author.
\<close>

definition knowledge_of :: "string \<Rightarrow> AuthorContribution \<Rightarrow> real" where
  "knowledge_of a r = sum_list (map snd (filter (\<lambda>(b, v). b = a) (contributions r)))"

definition files_of :: "string \<Rightarrow> AuthorContribution \<Rightarrow> int" where
  "files_of a r = (if author r = a then 1 else 0)"

text \<open>Two per-file results that share an identity.\<close>

definition result_one :: AuthorContribution where
  "result_one = \<lparr>author = ''ann@x.com'', contributions = [(''ann@x.com'', 3), (''bob@x.com'', 1)]\<rparr>"

definition result_two :: AuthorContribution where
  "result_two = \<lparr>author = ''bob@x.com'', contributions = [(''bob@x.com'', 2), (''cy@x.com'', 1 / 2)]\<rparr>"

text \<open>
  The retention of the specification for an age in days, with the fixed constants
  \<open>a = 0.19\<close>, \<open>b = 0.78\<close> and \<open>\<beta> = 0.68\<close>.
\<close>

definition retention :: "int \<Rightarrow> real" where
  "retention ageDays = 0.19 + (1 - 0.19) * 0.78 * (1 + real_of_int ageDays) powr (- 0.68)"










text \<open>A blame log with one header and no author metadata at all.\<close>

definition unattributed_log :: "string list" where
  "unattributed_log = [''aaaaaaaaaaaaaaaaaaaaaaaaaaaaaaaaaaaaaaaa 1 1 5'' @ [CHR 0x0A]]"

text \<open>
  Three per-file results whose knowledge values are floats: \<open>2 ^ 23\<close> and twice
  \<open>1 + 1 / 2 ^ 30\<close> for the same identity.
\<close>

definition float_result_one :: AuthorContribution where
  "float_result_one = \<lparr>author = ''ann@x.com'', contributions = [(''ann@x.com'', 8388608)]\<rparr>"

definition float_result_two :: AuthorContribution where
  "float_result_two = \<lparr>author = ''ann@x.com'', contributions = [(''ann@x.com'', 1 + 1 / 2 ^ 30)]\<rparr>"

definition float_result_three :: AuthorContribution where
  "float_result_three =
     \<lparr>author = ''bob@x.com'', contributions = [(''bob@x.com'', 3), (''ann@x.com'', 1 + 1 / 2 ^ 30)]\<rparr>"

section \<open>Verification\<close>

subsection \<open>Dictionaries and sorting\<close>

lemma dict_set_fresh: "k \<notin> fst ` set d \<Longrightarrow> dict_set d k v = d @ [(k, v)]"
  by (induction d) auto

lemma fold_dict_set_distinct:
  "distinct (map fst (acc @ xs)) \<Longrightarrow> fold (\<lambda>(k, v) d. dict_set d k v) xs acc = acc @ xs"
proof (induction xs arbitrary: acc)
  case Nil
  then show ?case by simp
next
  case (Cons x xs)
  obtain k v where x: "x = (k, v)" by (cases x)
  from Cons.prems have fresh: "k \<notin> fst ` set acc" by (auto simp: x)
  from Cons.prems have "distinct (map fst ((acc @ [(k, v)]) @ xs))" by (simp add: x)
  from Cons.IH[OF this] show ?case by (simp add: x dict_set_fresh[OF fresh])
qed

lemma dict_of_items_distinct: "distinct (map fst xs) \<Longrightarrow> dict_of_items xs = xs"
  using fold_dict_set_distinct[of "[]" xs] by (simp add: dict_of_items_def)

lemma mset_sorted_desc: "mset (sorted_desc xs) = mset xs"
  by (simp add: sorted_desc_def)

lemma distinct_keys_sorted_desc:
  assumes "distinct (map fst xs)"
  shows "distinct (map fst (sorted_desc xs))"
proof -
  have "mset (map fst (sorted_desc xs)) = mset (map fst xs)"
    by (simp add: mset_sorted_desc)
  then show ?thesis using assms by (metis mset_eq_imp_distinct_iff)
qed

subsection \<open>Where the selectors stop\<close>

lemma find_map: "List.find P (map f xs) = map_option f (List.find (P \<circ> f) xs)"
  by (induction xs) auto

lemma stop_index_Suc:
  "stop_index crossed (Suc len) =
     (if 0 < len \<and> crossed 1 then 1 else Suc (stop_index (crossed \<circ> Suc) len))"
proof (cases len)
  case 0
  then show ?thesis by (simp add: stop_index_def)
next
  case (Suc m)
  have "[1..<Suc len] = 1 # map Suc [1..<len]"
    by (metis One_nat_def Suc map_Suc_upt upt_conv_Cons zero_less_Suc Suc_less_eq)
  then show ?thesis
    by (simp add: stop_index_def find_map Suc split: option.splits)
qed

lemma stop_index_le: "stop_index crossed len \<le> len"
  by (auto simp: stop_index_def split: option.splits dest!: find_Some_iff[THEN iffD1])

lemma stop_index_pos: "0 < len \<Longrightarrow> 0 < stop_index crossed len"
  by (auto simp: stop_index_def split: option.splits dest!: find_Some_iff[THEN iffD1])

lemma stop_index_crossed: "stop_index crossed len < len \<Longrightarrow> crossed (stop_index crossed len)"
  by (auto simp: stop_index_def split: option.splits dest!: find_Some_iff[THEN iffD1])

lemma stop_index_first:
  assumes "0 < k" "k < stop_index crossed len"
  shows "\<not> crossed k"
proof (cases "List.find crossed [1..<len]")
  case None
  from assms have "k \<in> set [1..<len]" using None by (simp add: stop_index_def)
  then show ?thesis using None by (auto simp: find_None_iff)
next
  case (Some j)
  from assms have kj: "k < j" using Some by (simp add: stop_index_def)
  from Some obtain i where i: "i < length [1..<len]" "j = [1..<len] ! i"
    "\<forall>m<i. \<not> crossed ([1..<len] ! m)" by (auto simp: find_Some_iff)
  from i(1,2) have j: "j = 1 + i" by simp
  with kj assms(1) have "k - 1 < i" by simp
  with i(3) have "\<not> crossed ([1..<len] ! (k - 1))" by blast
  moreover have "[1..<len] ! (k - 1) = k" using assms(1) kj j i(1) by simp
  ultimately show ?thesis by simp
qed

lemma stop_index_never: "\<forall>k\<in>{1..<len}. \<not> crossed k \<Longrightarrow> stop_index crossed len = len"
  by (auto simp: stop_index_def find_None_iff split: option.splits dest!: find_Some_iff[THEN iffD1])







text \<open>
  In exact arithmetic a remainder of exactly one half of the total parts the two
  comparisons.
\<close>

lemma selector_asymmetry_example:
  "compute_truck_factor_from_file_authorship 100 [(''A'', 50), (''B'', 50)] (1/2) =
       Inr [\<lparr>f_author = ''A'', files_authored = 50, total_files = 100\<rparr>,
            \<lparr>f_author = ''B'', files_authored = 50, total_files = 100\<rparr>]
   \<and> compute_truck_factor_from_knowledge_base 100 [(''A'', 50), (''B'', 50)] (1/2) =
       Inr [\<lparr>k_author = ''A'', author_contribution = 50, total_knowledge = 100\<rparr>]"
  by (simp add: compute_truck_factor_from_file_authorship_def
        compute_truck_factor_from_knowledge_base_def sorted_desc_def dict_of_items_def)

lemma sorted_desc_descending:
  fixes xs :: "('k \<times> 'v::linordered_ab_group_add) list"
  shows "sorted_wrt (\<lambda>x y. snd y \<le> snd x) (sorted_desc xs)"
proof -
  have "sorted (map (\<lambda>item. - snd item) (sorted_desc xs))"
    unfolding sorted_desc_def by (rule sorted_sort_key)
  then show ?thesis by (simp add: sorted_map)
qed






subsection \<open>The parser on the two-fragment log\<close>

text \<open>
  Claim C6. On the synthetic two-fragment log, for every path, \<open>parse_log\<close> returns exactly
  one fragment of 5 lines at timestamp 0 under \<open>alice@x.com\<close> and one fragment of 3 lines
  at timestamp 0 under \<open>bob@x.com\<close>, and nothing else. The first fragment is emitted with
  one header of lag: nothing is recorded after the first four lines, it is recorded once the
  second header has been read, and the second fragment is only added by the final flush
  after the loop.
\<close>

theorem parse_log_two_fragments:
  "parse_log path two_fragment_log =
     Inr [(''alice@x.com'', [\<lparr>lines = 5, date = 0, file_path = path\<rparr>]),
          (''bob@x.com'', [\<lparr>lines = 3, date = 0, file_path = path\<rparr>])]
   \<and> map_sum id commits (parse_lines path parse_init (take 4 two_fragment_log)) = Inr []
   \<and> map_sum id commits (parse_lines path parse_init (take 5 two_fragment_log)) =
       Inr [(''alice@x.com'', [\<lparr>lines = 5, date = 0, file_path = path\<rparr>])]
   \<and> map_sum id commits (parse_lines path parse_init two_fragment_log) =
       Inr [(''alice@x.com'', [\<lparr>lines = 5, date = 0, file_path = path\<rparr>])]"
  by code_simp

subsection \<open>Identity resolution\<close>

lemma map_of_dict_extend:
  "map_of (dict_extend d k xs) =
     (map_of d)(k \<mapsto> (case map_of d k of None \<Rightarrow> [] | Some ys \<Rightarrow> ys) @ xs)"
  by (induction d) (auto simp: fun_eq_iff)

lemma use_mailmap_step:
  "(\<lambda>(authorMail, cs) mappedContributions.
       (case m authorMail of
          Some mappedMail \<Rightarrow> dict_extend mappedContributions mappedMail cs
        | None \<Rightarrow> dict_extend mappedContributions authorMail cs))
   = (\<lambda>(authorMail, cs) mappedContributions. dict_extend mappedContributions (resolve m authorMail) cs)"
  by (auto simp: fun_eq_iff resolve_def split: option.splits)

lemma use_mailmap_resolve:
  "use_mailmap contribs m = fold (\<lambda>(e, cs) d. dict_extend d (resolve m e) cs) contribs []"
  by (simp add: use_mailmap_def use_mailmap_step)

lemma commits_under_absent:
  "c \<notin> resolve m ` fst ` set contribs \<Longrightarrow> commits_under m contribs c = []"
  by (induction contribs) (auto simp: commits_under_def)

lemma commits_under_Cons:
  "commits_under m ((e, cs) # contribs) c =
     (if resolve m e = c then cs else []) @ commits_under m contribs c"
  by (simp add: commits_under_def)

lemma map_of_fold_extend:
  "map_of (fold (\<lambda>(e, cs) d. dict_extend d (resolve m e) cs) contribs acc) c =
     (if c \<in> resolve m ` fst ` set contribs
      then Some ((case map_of acc c of None \<Rightarrow> [] | Some ys \<Rightarrow> ys) @ commits_under m contribs c)
      else map_of acc c)"
proof (induction contribs arbitrary: acc)
  case Nil
  then show ?case by simp
next
  case (Cons x contribs)
  obtain e cs where x: "x = (e, cs)" by (cases x)
  show ?case
    by (auto simp: x Cons.IH map_of_dict_extend commits_under_Cons commits_under_absent
          split: option.splits)
qed

lemma map_of_use_mailmap:
  "map_of (use_mailmap contribs m) c =
     (if c \<in> resolve m ` fst ` set contribs then Some (commits_under m contribs c) else None)"
  by (simp add: use_mailmap_resolve map_of_fold_extend)


lemma commits_under_append:
  "commits_under m (xs @ ys) c = commits_under m xs c @ commits_under m ys c"
  by (simp add: commits_under_def)

lemma commits_under_block:
  assumes "(e, cs) \<in> set contribs"
  shows "\<exists>pre post. commits_under m contribs (resolve m e) = pre @ cs @ post"
proof -
  from assms obtain xs ys where "contribs = xs @ (e, cs) # ys"
    by (auto simp: in_set_conv_decomp)
  then have "commits_under m contribs (resolve m e) =
      commits_under m xs (resolve m e) @ cs @ commits_under m ys (resolve m e)"
    by (simp add: commits_under_append commits_under_Cons)
  then show ?thesis by blast
qed

text \<open>
  Claim C7. \<open>use_mailmap\<close> is a total function with no failing branch, and it applies the
  mapping as a pure function of the raw email: the commits found under an identity of the
  result are exactly those of the raw emails resolving to it, and an identity to which no
  raw email resolves is absent. In particular the commits of every raw email stand, as one
  unchanged block, under the email itself when the mapping does not list it and under its
  mapped canonical email when it does.
\<close>

theorem use_mailmap_resolves_every_email:
  "map_of (use_mailmap contribs m) c =
     (if c \<in> resolve m ` fst ` set contribs then Some (commits_under m contribs c) else None)
   \<and> (\<forall>(e, cs)\<in>set contribs. \<exists>pre post.
         map_of (use_mailmap contribs m) (case m e of None \<Rightarrow> e | Some canonical \<Rightarrow> canonical)
           = Some (pre @ cs @ post))"
proof
  show "map_of (use_mailmap contribs m) c =
     (if c \<in> resolve m ` fst ` set contribs then Some (commits_under m contribs c) else None)"
    by (rule map_of_use_mailmap)
next
  show "\<forall>(e, cs)\<in>set contribs. \<exists>pre post.
         map_of (use_mailmap contribs m) (case m e of None \<Rightarrow> e | Some canonical \<Rightarrow> canonical)
           = Some (pre @ cs @ post)"
  proof (clarify)
    fix e cs
    assume mem: "(e, cs) \<in> set contribs"
    then have "resolve m e \<in> resolve m ` fst ` set contribs" by force
    then have "map_of (use_mailmap contribs m) (resolve m e) = Some (commits_under m contribs (resolve m e))"
      by (simp add: map_of_use_mailmap)
    moreover have "(case m e of None \<Rightarrow> e | Some canonical \<Rightarrow> canonical) = resolve m e"
      by (simp add: resolve_def split: option.splits)
    ultimately show "\<exists>pre post.
         map_of (use_mailmap contribs m) (case m e of None \<Rightarrow> e | Some canonical \<Rightarrow> canonical)
           = Some (pre @ cs @ post)"
      using commits_under_block[OF mem, of m] by auto
  qed
qed

theorem use_mailmap_resolves_every_email_witness:
  "map_of (use_mailmap sample_contributions sample_mailmap) ''ann@x.com'' =
     Some [\<lparr>lines = 5, date = 0, file_path = ''f.log''\<rparr>,
           \<lparr>lines = 2, date = 86400000000, file_path = ''f.log''\<rparr>]
   \<and> map_of (use_mailmap sample_contributions sample_mailmap) ''bob@x.com'' =
     Some [\<lparr>lines = 3, date = 0, file_path = ''f.log''\<rparr>]
   \<and> map_of (use_mailmap sample_contributions sample_mailmap) ''ann@old.com'' = None"
  using use_mailmap_resolves_every_email[of sample_contributions sample_mailmap "''ann@x.com''"]
    use_mailmap_resolves_every_email[of sample_contributions sample_mailmap "''bob@x.com''"]
    use_mailmap_resolves_every_email[of sample_contributions sample_mailmap "''ann@old.com''"]
  by (simp add: sample_contributions_def sample_mailmap_def resolve_def commits_under_def)

subsection \<open>Identity resolution keeps every commit\<close>




lemma sum_list_mset_cong:
  fixes f :: "'a \<Rightarrow> 'b::comm_monoid_add"
  shows "mset xs = mset ys \<Longrightarrow> sum_list (map f xs) = sum_list (map f ys)"
  by (metis mset_map sum_mset_sum_list)







subsection \<open>The tallies do not depend on the order of the files\<close>

lemma map_of_dict_set: "map_of (dict_set d k v) = (map_of d)(k \<mapsto> v)"
  by (induction d) (auto simp: fun_eq_iff)

lemma filter_key_absent:
  "a \<notin> fst ` set xs \<Longrightarrow> filter (\<lambda>(b, v). b = a) xs = []"
  by (induction xs) auto

lemma map_of_add_knowledge:
  "map_of (map_add_or_increment_knowledge kb fkb) a =
     (if a \<in> fst ` set fkb
      then Some ((case map_of kb a of None \<Rightarrow> 0 | Some w \<Rightarrow> w)
                 + sum_list (map snd (filter (\<lambda>(b, v). b = a) fkb)))
      else map_of kb a)"
  unfolding map_add_or_increment_knowledge_def
proof (induction fkb arbitrary: kb)
  case Nil
  then show ?case by simp
next
  case (Cons x fkb)
  obtain b v where x: "x = (b, v)" by (cases x)
  show ?case
    by (cases "map_of kb b")
       (auto simp: x Cons.IH map_of_dict_set Let_def filter_key_absent)
qed

lemma map_of_add_authorship:
  "map_of (map_add_or_increment_authorship af b) a =
     (if a = b then Some ((case map_of af a of None \<Rightarrow> 0 | Some n \<Rightarrow> n) + 1) else map_of af a)"
  by (auto simp: map_add_or_increment_authorship_def map_of_dict_set split: option.splits)

lemma fold_results_Cons: "fold_results (r # rs) t = fold_results rs (tally_step r t)"
  by (simp add: fold_results_def)

lemma files_of_absent: "a \<notin> author ` set rs \<Longrightarrow> sum_list (map (files_of a) rs) = 0"
  by (induction rs) (auto simp: files_of_def)

lemma map_of_fold_results_authorship:
  "map_of (fst (fold_results rs t)) a =
     (if a \<in> author ` set rs
      then Some ((case map_of (fst t) a of None \<Rightarrow> 0 | Some n \<Rightarrow> n) + sum_list (map (files_of a) rs))
      else map_of (fst t) a)"
proof (induction rs arbitrary: t)
  case Nil
  then show ?case by (simp add: fold_results_def)
next
  case (Cons r rs)
  have step: "map_of (fst (tally_step r t)) a =
      (if author r = a then Some ((case map_of (fst t) a of None \<Rightarrow> 0 | Some n \<Rightarrow> n) + 1)
       else map_of (fst t) a)"
    by (auto simp: tally_step_def map_of_add_authorship)
  have hd: "files_of a r = (if author r = a then 1 else 0)"
    by (simp add: files_of_def)
  show ?case
  proof (cases "a \<in> author ` set rs")
    case True
    then show ?thesis
      by (simp add: fold_results_Cons Cons.IH step hd split: option.splits)
  next
    case False
    have "sum_list (map (files_of a) rs) = 0" by (rule files_of_absent[OF False])
    with False show ?thesis
      by (cases "author r = a")
         (auto simp: fold_results_Cons Cons.IH step files_of_def split: option.splits)
  qed
qed

lemma knowledge_of_absent: "a \<notin> fst ` set (contributions r) \<Longrightarrow> knowledge_of a r = 0"
  by (simp add: knowledge_of_def filter_key_absent)

lemma knowledge_of_all_absent:
  "\<forall>r\<in>set rs. a \<notin> fst ` set (contributions r) \<Longrightarrow> sum_list (map (knowledge_of a) rs) = 0"
  by (induction rs) (simp_all add: knowledge_of_absent)

lemma map_of_fold_results_knowledge:
  "map_of (snd (fold_results rs t)) a =
     (if \<exists>r\<in>set rs. a \<in> fst ` set (contributions r)
      then Some ((case map_of (snd t) a of None \<Rightarrow> 0 | Some w \<Rightarrow> w) + sum_list (map (knowledge_of a) rs))
      else map_of (snd t) a)"
proof (induction rs arbitrary: t)
  case Nil
  then show ?case by (simp add: fold_results_def)
next
  case (Cons r rs)
  have step: "map_of (snd (tally_step r t)) a =
      (if a \<in> fst ` set (contributions r)
       then Some ((case map_of (snd t) a of None \<Rightarrow> 0 | Some w \<Rightarrow> w) + knowledge_of a r)
       else map_of (snd t) a)"
    by (simp add: tally_step_def map_of_add_knowledge knowledge_of_def)
  show ?case
  proof (cases "\<exists>r\<in>set rs. a \<in> fst ` set (contributions r)")
    case True
    then show ?thesis
      by (cases "a \<in> fst ` set (contributions r)")
         (simp_all add: fold_results_Cons Cons.IH step knowledge_of_absent split: option.splits)
  next
    case False
    then have "sum_list (map (knowledge_of a) rs) = 0"
      by (simp add: knowledge_of_all_absent)
    with False show ?thesis
      by (cases "a \<in> fst ` set (contributions r)")
         (simp_all add: fold_results_Cons Cons.IH step knowledge_of_absent split: option.splits)
  qed
qed

text \<open>
  Claim C8, amended. For every two lists of per-file results that are permutations of each
  other, and whatever the tallies folding starts from, folding them through
  \<open>map_add_or_increment_authorship\<close> and \<open>map_add_or_increment_knowledge\<close> gives every
  identity the same file count and, when the knowledge sums are taken in exact arithmetic,
  the same knowledge value. With float additions the knowledge values depend on the order
  of the files, and no tolerance of \<open>1 / 10 ^ 9\<close> holds in general.
\<close>

theorem tallies_independent_of_file_order:
  assumes "mset results = mset results'"
  shows "map_of (fst (fold_results results tallies)) a = map_of (fst (fold_results results' tallies)) a
       \<and> map_of (snd (fold_results results tallies)) a = map_of (snd (fold_results results' tallies)) a"
proof -
  have s: "set results = set results'" by (rule mset_eq_setD[OF assms])
  have f: "sum_list (map (files_of a) results) = sum_list (map (files_of a) results')"
    by (rule sum_list_mset_cong[OF assms])
  have k: "sum_list (map (knowledge_of a) results) = sum_list (map (knowledge_of a) results')"
    by (rule sum_list_mset_cong[OF assms])
  show ?thesis
    by (simp only: map_of_fold_results_authorship map_of_fold_results_knowledge s f k)
qed

theorem tallies_independent_of_file_order_witness:
  "mset [result_one, result_two] = mset [result_two, result_one]
   \<and> map_of (fst (fold_results [result_one, result_two] ([], []))) ''bob@x.com'' = Some 1
   \<and> map_of (fst (fold_results [result_two, result_one] ([], []))) ''bob@x.com'' = Some 1
   \<and> map_of (snd (fold_results [result_one, result_two] ([], []))) ''bob@x.com'' = Some 3
   \<and> map_of (snd (fold_results [result_two, result_one] ([], []))) ''bob@x.com'' = Some 3"
proof -
  have p: "mset [result_one, result_two] = mset [result_two, result_one]"
    by (simp add: add_mset_commute)
  have "map_of (fst (fold_results [result_one, result_two] ([], []))) ''bob@x.com'' = Some 1
      \<and> map_of (snd (fold_results [result_one, result_two] ([], []))) ''bob@x.com'' = Some 3"
    by (simp add: fold_results_def tally_step_def result_one_def result_two_def
          map_add_or_increment_authorship_def map_add_or_increment_knowledge_def)
  with p tallies_independent_of_file_order[OF p, of "([], [])" "''bob@x.com''"]
  show ?thesis by simp
qed

subsection \<open>The decay model\<close>

lemma py_pow_positive: "0 < x \<Longrightarrow> y \<noteq> 0 \<Longrightarrow> py_pow x y = Inr (x powr y)"
  by (simp add: py_pow_def)

lemma retention_function_nonneg_age:
  "0 \<le> t \<Longrightarrow> knowledge_retention_function t 0.19 0.78 0.68 = Inr (retention t)"
  by (simp add: knowledge_retention_function_def py_pow_positive retention_def add.commute)

lemma compute_lines_value_nonneg_age:
  "0 \<le> timedelta_days (ref - date c) \<Longrightarrow>
   compute_lines_value ref c = Inr (real_of_int (lines c) * retention (timedelta_days (ref - date c)))"
  unfolding compute_lines_value_def Let_def
  by (simp only: retention_function_nonneg_age sum.case)

lemma retention_bounds:
  assumes "0 \<le> t"
  shows "0.19 < retention t" and "retention t \<le> 0.19 + (1 - 0.19) * 0.78"
proof -
  let ?x = "1 + real_of_int t"
  from assms have x: "1 \<le> ?x" by simp
  then have pos: "0 < ?x powr (- 0.68)" by simp
  then show "0.19 < retention t" by (simp add: retention_def)
  have "?x powr (- 0.68) \<le> 1 powr (- 0.68)"
    by (rule powr_mono2') (use x in simp_all)
  then have "?x powr (- 0.68) \<le> 1" by simp
  then show "retention t \<le> 0.19 + (1 - 0.19) * 0.78" by (simp add: retention_def)
qed








subsection \<open>The age passed to the retention function\<close>


lemma timedelta_days_nonneg: "0 \<le> td \<Longrightarrow> 0 \<le> timedelta_days td"
  by (simp add: timedelta_days_def pos_imp_zdiv_nonneg_iff)

lemma timedelta_days_neg: "td < 0 \<Longrightarrow> timedelta_days td < 0"
  by (simp add: timedelta_days_def neg_imp_zdiv_neg_iff)




subsection \<open>Reading a mailmap\<close>










subsection \<open>Logs that contribute nothing\<close>

lemma parse_log_empty:
  "parse_log path [] = Inr [([], [\<lparr>lines = 0, date = 0, file_path = path\<rparr>])]"
  by code_simp

lemma parse_log_unattributed:
  "parse_log path unattributed_log = Inr [([], [\<lparr>lines = 5, date = 0, file_path = path\<rparr>])]"
  by code_simp

lemma use_mailmap_single:
  "m e = None \<Longrightarrow> use_mailmap [(e, cs)] m = [(e, cs)]"
  by (simp add: use_mailmap_def)

lemma compute_author_single:
  assumes "0 \<le> timedelta_days (ref - date c)"
  shows "compute_author ref [(e, [c])] =
     Inr \<lparr>author = e,
          contributions = [(e, real_of_int (lines c) * retention (timedelta_days (ref - date c)))]\<rparr>"
  by (simp add: compute_author_def compute_contribution_value_def
        compute_lines_value_nonneg_age[OF assms] py_max_by_value_def)

lemma tally_step_fresh:
  "tally_step \<lparr>author = e, contributions = [(e, v)]\<rparr> ([], []) = ([(e, 1)], [(e, v)])"
  by (simp add: tally_step_def map_add_or_increment_authorship_def
        map_add_or_increment_knowledge_def)

text \<open>
  Claim C2 says that a log which contributes nothing (an empty or a fully unattributed
  blame log) leaves both tallies unchanged. The code does otherwise. For a reference instant
  at or after the epoch and a mapping that does not list the empty email: an empty log
  still yields the zero-line fragment of the final flush under the empty email, so
  \<open>compute_ownership\<close> gives the empty email one authored file and a knowledge entry of
  \<open>0\<close>; a log with a header and no author metadata gives the empty email one authored file
  and a positive knowledge value. With no log at all both tallies are empty. Nothing is
  raised in any of these runs.
\<close>

theorem empty_log_changes_tallies:
  assumes "0 \<le> ref" and "mail_to_mail [] = None"
  shows "compute_ownership ref mail_to_mail [(path, [])] = Inr ([([], 1)], [([], 0)])
       \<and> compute_ownership ref mail_to_mail [(path, unattributed_log)] =
           Inr ([([], 1)], [([], 5 * retention (timedelta_days ref))])
       \<and> 0 < 5 * retention (timedelta_days ref)
       \<and> compute_ownership ref mail_to_mail [] = Inr ([], [])"
proof -
  from assms(1) have age: "0 \<le> timedelta_days (ref - 0)"
    by (simp add: timedelta_days_nonneg)
  have e: "compute_ownership ref mail_to_mail [(path, [])] = Inr ([([], 1)], [([], 0)])"
    using compute_author_single[of ref "\<lparr>lines = 0, date = 0, file_path = path\<rparr>" "[]"] age
    by (simp add: compute_ownership_def compute_knowledge_ownership_def parse_log_empty
          use_mailmap_single[of mail_to_mail "[]", OF assms(2)] tally_step_fresh)
  have u: "compute_ownership ref mail_to_mail [(path, unattributed_log)] =
           Inr ([([], 1)], [([], 5 * retention (timedelta_days ref))])"
    using compute_author_single[of ref "\<lparr>lines = 5, date = 0, file_path = path\<rparr>" "[]"] age
    by (simp add: compute_ownership_def compute_knowledge_ownership_def parse_log_unattributed
          use_mailmap_single[of mail_to_mail "[]", OF assms(2)] tally_step_fresh)
  from age have "0.19 < retention (timedelta_days ref)"
    using retention_bounds(1)[of "timedelta_days ref"] by simp
  then have p: "0 < 5 * retention (timedelta_days ref)" by simp
  have n: "compute_ownership ref mail_to_mail [] = Inr ([], [])"
    by (simp add: compute_ownership_def)
  from e u p n show ?thesis by simp
qed

theorem empty_log_changes_tallies_witness:
  "(0::int) \<le> 1700000000000000 \<and> (Map.empty :: string \<rightharpoonup> string) [] = None
   \<and> compute_ownership 1700000000000000 Map.empty [(''empty.log'', [])] = Inr ([([], 1)], [([], 0)])
   \<and> compute_ownership 1700000000000000 Map.empty [] = Inr ([], [])"
proof -
  have h1: "(0::int) \<le> 1700000000000000" by simp
  have h2: "(Map.empty :: string \<rightharpoonup> string) [] = None" by simp
  from empty_log_changes_tallies[OF h1 h2, of "''empty.log''"] h1 h2 show ?thesis by simp
qed

subsection \<open>Rounding to a float\<close>

lemma round_double_eval:
  assumes "0 < x" and "2 powr real_of_int k \<le> x" and "x < 2 powr (real_of_int k + 1)"
    and "- 1022 \<le> k"
  shows "round_double x =
     of_int (round_half_even (x / 2 powr real_of_int (k - 52))) * 2 powr real_of_int (k - 52)"
proof -
  have "\<lfloor>log 2 x\<rfloor> = k"
    using assms(1-3) by (simp add: floor_log_eq_powr_iff)
  with assms(1,4) show ?thesis
    by (simp add: round_double_def Let_def max_def)
qed

lemma two_powr_diff_nat: "2 powr (real_of_int (int a - int b)) = 2 ^ a / (2 ^ b :: real)"
  by (simp add: powr_diff powr_realpow)

lemma round_double_scaled_up:
  assumes "2 ^ 52 \<le> x * 2 ^ n" and "x * 2 ^ n < 2 ^ 53" and "n \<le> 1074"
  shows "round_double x = of_int (round_half_even (x * 2 ^ n)) / 2 ^ n"
proof -
  have pos: "0 < x"
  proof (rule ccontr)
    assume "\<not> 0 < x"
    then have "x * 2 ^ n \<le> 0" by (simp add: mult_le_0_iff)
    with assms(1) show False by (smt (verit) zero_less_power)
  qed
  let ?k = "int 52 - int n"
  have p: "2 powr real_of_int ?k = 2 ^ 52 / 2 ^ n" by (rule two_powr_diff_nat)
  have lo: "2 powr real_of_int ?k \<le> x"
    unfolding p using assms(1) by (simp add: pos_divide_le_eq)
  have "2 powr (real_of_int ?k + 1) = 2 powr real_of_int ?k * 2 powr 1"
    by (rule powr_add)
  then have "2 powr (real_of_int ?k + 1) = 2 * (2 ^ 52 / 2 ^ n)"
    by (simp only: p) simp
  then have hi: "x < 2 powr (real_of_int ?k + 1)"
    using assms(2) by (simp add: pos_less_divide_eq)
  have k: "- 1022 \<le> ?k" using assms(3) by simp
  have u: "2 powr real_of_int (?k - 52) = 1 / 2 ^ n"
    using two_powr_diff_nat[of 0 n] by simp
  have "round_double x = of_int (round_half_even (x / (1 / 2 ^ n))) * (1 / 2 ^ n)"
    using round_double_eval[OF pos lo hi k] by (simp only: u)
  then show ?thesis by simp
qed

lemma round_double_zero: "round_double 0 = 0"
  by (simp add: round_double_def)

lemma round_double_15: "round_double 15 = 15"
proof -
  have "round_double 15 = of_int (round_half_even (15 * 2 ^ 49)) / 2 ^ 49"
    by (rule round_double_scaled_up) simp_all
  then show ?thesis by (simp add: round_half_even_def Let_def)
qed

lemma round_double_40: "round_double 40 = 40"
proof -
  have "round_double 40 = of_int (round_half_even (40 * 2 ^ 47)) / 2 ^ 47"
    by (rule round_double_scaled_up) simp_all
  then show ?thesis by (simp add: round_half_even_def Let_def)
qed

lemma round_double_50: "round_double 50 = 50"
proof -
  have "round_double 50 = of_int (round_half_even (50 * 2 ^ 47)) / 2 ^ 47"
    by (rule round_double_scaled_up) simp_all
  then show ?thesis by (simp add: round_half_even_def Let_def)
qed

lemma round_double_half: "round_double (1 / 2) = 1 / 2"
proof -
  have "round_double (1 / 2) = of_int (round_half_even ((1 / 2) * 2 ^ 53)) / 2 ^ 53"
    by (rule round_double_scaled_up) simp_all
  then show ?thesis by (simp add: round_half_even_def Let_def)
qed

lemma round_double_two_fifths: "round_double (2 / 5) = 3602879701896397 / 9007199254740992"
proof -
  have "round_double (2 / 5) = of_int (round_half_even ((2 / 5) * 2 ^ 54)) / 2 ^ 54"
    by (rule round_double_scaled_up) simp_all
  then show ?thesis by (simp add: round_half_even_def Let_def)
qed

lemma round_double_three_twentieths:
  "round_double (3 / 20) = 5404319552844595 / 36028797018963968"
proof -
  have "round_double (3 / 20) = of_int (round_half_even ((3 / 20) * 2 ^ 55)) / 2 ^ 55"
    by (rule round_double_scaled_up) simp_all
  then show ?thesis by (simp add: round_half_even_def Let_def)
qed

lemma round_double_tie_at_8: "round_double (8 + 1 / 2 ^ 50) = 8"
proof -
  have "round_double (8 + 1 / 2 ^ 50) = of_int (round_half_even ((8 + 1 / 2 ^ 50) * 2 ^ 49)) / 2 ^ 49"
    by (rule round_double_scaled_up) simp_all
  then show ?thesis by (simp add: round_half_even_def Let_def)
qed

lemma round_double_below_half:
  "round_double (36028797018963967 / 72057594037927936) = 1 / 2"
proof -
  have "round_double (36028797018963967 / 72057594037927936) =
      of_int (round_half_even ((36028797018963967 / 72057594037927936) * 2 ^ 54)) / 2 ^ 54"
    by (rule round_double_scaled_up) simp_all
  then show ?thesis by (simp add: round_half_even_def Let_def)
qed

lemma round_double_sum_a: "round_double (9007200328482817 / 1073741824) = 8388609"
proof -
  have "round_double (9007200328482817 / 1073741824) =
      of_int (round_half_even ((9007200328482817 / 1073741824) * 2 ^ 29)) / 2 ^ 29"
    by (rule round_double_scaled_up) simp_all
  then show ?thesis by (simp add: round_half_even_def Let_def)
qed

lemma round_double_sum_b: "round_double (9007201402224641 / 1073741824) = 8388610"
proof -
  have "round_double (9007201402224641 / 1073741824) =
      of_int (round_half_even ((9007201402224641 / 1073741824) * 2 ^ 29)) / 2 ^ 29"
    by (rule round_double_scaled_up) simp_all
  then show ?thesis by (simp add: round_half_even_def Let_def)
qed

lemma round_double_sum_c: "round_double (1073741825 / 536870912) = 1073741825 / 536870912"
proof -
  have "round_double (1073741825 / 536870912) =
      of_int (round_half_even ((1073741825 / 536870912) * 2 ^ 51)) / 2 ^ 51"
    by (rule round_double_scaled_up) simp_all
  then show ?thesis by (simp add: round_half_even_def Let_def)
qed

lemma round_double_sum_d: "round_double (4503600701112321 / 536870912) = 4503600701112321 / 536870912"
proof -
  have "round_double (4503600701112321 / 536870912) =
      of_int (round_half_even ((4503600701112321 / 536870912) * 2 ^ 29)) / 2 ^ 29"
    by (rule round_double_scaled_up) simp_all
  then show ?thesis by (simp add: round_half_even_def Let_def)
qed

lemmas rd_simps = round_double_zero round_double_40 round_double_15 round_double_50
  round_double_half round_double_two_fifths round_double_three_twentieths

lemmas round_double_tie_at_8_simp = round_double_tie_at_8[simplified]

lemmas round_double_sums =
  round_double_sum_a round_double_sum_b round_double_sum_c round_double_sum_d

subsection \<open>Where the selectors stop in float arithmetic\<close>

lemma remaining_Cons_Suc: "remaining left ((a, n) # items) (Suc k) = remaining (left - n) items k"
  by (simp add: remaining_def)

lemma float_remaining_Cons_Suc:
  "float_remaining left ((a, v) # items) (Suc k) = float_remaining (round_double (left - v)) items k"
  by (simp add: float_remaining_def)

lemma list_all_upt_Suc_shift:
  "list_all P [1..<Suc (Suc n)] = (P 1 \<and> list_all (P \<circ> Suc) [1..<Suc n])"
proof -
  have "[1..<Suc (Suc n)] = 1 # map Suc [1..<Suc n]"
    by (metis One_nat_def map_Suc_upt upt_conv_Cons zero_less_Suc Suc_less_eq)
  then show ?thesis by (simp add: list_all_iff)
qed

lemma authorship_loop_float_stop_index:
  assumes "knowledge \<noteq> 0"
    and "list_all (\<lambda>k. finite_double
            (round_double (real_of_int (remaining left items k) / real_of_int knowledge)))
          [1..<Suc (length items)]"
  shows "authorship_loop_float knowledge cl items tf left =
     Inr (tf @ authorship_entries knowledge
            (take (stop_index
                     (\<lambda>k. round_double (real_of_int (remaining left items k) / real_of_int knowledge) < cl)
                     (length items)) items))"
  using assms(2)
proof (induction items arbitrary: tf left)
  case Nil
  then show ?case by (simp add: authorship_entries_def)
next
  case (Cons x items)
  obtain a n where x: "x = (a, n)" by (cases x)
  let ?ratio = "\<lambda>l its k. round_double (real_of_int (remaining l its k) / real_of_int knowledge)"
  from Cons.prems have all: "list_all (\<lambda>k. finite_double (?ratio left ((a, n) # items) k))
      [1..<Suc (Suc (length items))]" by (simp add: x)
  have r1: "remaining left ((a, n) # items) (Suc 0) = left - n"
    by (simp add: remaining_def)
  from all have fin1: "finite_double (round_double (real_of_int (left - n) / real_of_int knowledge))"
    unfolding list_all_upt_Suc_shift by (simp add: r1)
  from all have rest: "list_all (\<lambda>k. finite_double (?ratio (left - n) items k)) [1..<Suc (length items)]"
    unfolding list_all_upt_Suc_shift by (simp add: comp_def remaining_Cons_Suc)
  have comp: "(\<lambda>k. ?ratio left ((a, n) # items) k < cl) \<circ> Suc = (\<lambda>k. ?ratio (left - n) items k < cl)"
    by (rule ext) (simp add: remaining_Cons_Suc)
  have div: "int_true_divide (left - n) knowledge =
      Inr (round_double (real_of_int (left - n) / real_of_int knowledge))"
    using assms(1) fin1 by (simp add: int_true_divide_def)
  show ?case
    using Cons.IH[OF rest,
        of "tf @ [\<lparr>f_author = a, files_authored = n, total_files = knowledge\<rparr>]"]
    by (simp add: x stop_index_Suc comp r1 authorship_entries_def Let_def div)
qed

lemma knowledge_loop_float_stop_index:
  assumes "total_kb \<noteq> 0"
    and "list_all (\<lambda>k. finite_double (float_remaining left items k)
                     \<and> finite_double (round_double (float_remaining left items k / total_kb)))
          [1..<Suc (length items)]"
  shows "knowledge_loop_float total_kb cl items tf left =
     Inr (tf @ knowledge_entries total_kb
            (take (stop_index (\<lambda>k. round_double (float_remaining left items k / total_kb) \<le> cl)
                     (length items)) items))"
  using assms(2)
proof (induction items arbitrary: tf left)
  case Nil
  then show ?case by (simp add: knowledge_entries_def)
next
  case (Cons x items)
  obtain a v where x: "x = (a, v)" by (cases x)
  let ?left' = "round_double (left - v)"
  from Cons.prems have all: "list_all (\<lambda>k. finite_double (float_remaining left ((a, v) # items) k)
        \<and> finite_double (round_double (float_remaining left ((a, v) # items) k / total_kb)))
      [1..<Suc (Suc (length items))]" by (simp add: x)
  have r1: "float_remaining left ((a, v) # items) (Suc 0) = ?left'"
    by (simp add: float_remaining_def)
  from all have fin1: "finite_double ?left'" "finite_double (round_double (?left' / total_kb))"
    unfolding list_all_upt_Suc_shift by (simp_all add: r1)
  from all have rest: "list_all (\<lambda>k. finite_double (float_remaining ?left' items k)
        \<and> finite_double (round_double (float_remaining ?left' items k / total_kb)))
      [1..<Suc (length items)]"
    unfolding list_all_upt_Suc_shift by (simp add: comp_def float_remaining_Cons_Suc)
  have comp: "(\<lambda>k. round_double (float_remaining left ((a, v) # items) k / total_kb) \<le> cl) \<circ> Suc
      = (\<lambda>k. round_double (float_remaining ?left' items k / total_kb) \<le> cl)"
    by (rule ext) (simp add: float_remaining_Cons_Suc)
  have sub: "float_sub left v = Inr ?left'"
    using fin1(1) by (simp add: float_sub_def)
  have div: "float_div ?left' total_kb = Inr (round_double (?left' / total_kb))"
    using assms(1) fin1(2) by (simp add: float_div_def)
  show ?case
    using assms(1) Cons.IH[OF rest,
        of "tf @ [\<lparr>k_author = a, author_contribution = v, total_knowledge = total_kb\<rparr>]"]
    by (simp add: x stop_index_Suc comp r1 knowledge_entries_def Let_def sub div)
qed

lemma file_authorship_float_stop_index:
  assumes "n_files \<noteq> 0" and "distinct (map fst authored)"
    and "list_all (\<lambda>k. finite_double (authorship_ratio n_files (sorted_desc authored) k))
           [1..<Suc (length authored)]"
  shows "compute_truck_factor_from_file_authorship_float n_files authored cl =
       Inr (authorship_entries n_files
              (take (stop_index (\<lambda>k. authorship_ratio n_files (sorted_desc authored) k < cl)
                       (length authored))
                 (sorted_desc authored)))"
proof -
  have len: "length (sorted_desc authored) = length authored"
    by (rule mset_eq_length[OF mset_sorted_desc])
  have fin: "list_all (\<lambda>k. finite_double (round_double
        (real_of_int (remaining n_files (sorted_desc authored) k) / real_of_int n_files)))
      [1..<Suc (length (sorted_desc authored))]"
    using assms(3) by (simp add: authorship_ratio_def len)
  show ?thesis
    using authorship_loop_float_stop_index[OF assms(1) fin, of cl "[]"]
    by (simp add: compute_truck_factor_from_file_authorship_float_def
          dict_of_items_distinct[OF distinct_keys_sorted_desc[OF assms(2)]] len
          authorship_ratio_def)
qed

lemma knowledge_base_float_stop_index:
  assumes "kb_total \<noteq> 0" and "distinct (map fst kb)"
    and "list_all (\<lambda>k. finite_double (float_remaining kb_total (sorted_desc kb) k)
                      \<and> finite_double (knowledge_ratio kb_total (sorted_desc kb) k))
           [1..<Suc (length kb)]"
  shows "compute_truck_factor_from_knowledge_base_float kb_total kb cl =
       Inr (knowledge_entries kb_total
              (take (stop_index (\<lambda>k. knowledge_ratio kb_total (sorted_desc kb) k \<le> cl)
                       (length kb))
                 (sorted_desc kb)))"
proof -
  have klen: "length (sorted_desc kb) = length kb"
    by (rule mset_eq_length[OF mset_sorted_desc])
  have kfin: "list_all (\<lambda>k. finite_double (float_remaining kb_total (sorted_desc kb) k)
        \<and> finite_double (round_double (float_remaining kb_total (sorted_desc kb) k / kb_total)))
      [1..<Suc (length (sorted_desc kb))]"
    using assms(3) by (simp add: knowledge_ratio_def klen)
  show ?thesis
    using knowledge_loop_float_stop_index[OF assms(1) kfin, of cl "[]"]
    by (simp add: compute_truck_factor_from_knowledge_base_float_def
          dict_of_items_distinct[OF distinct_keys_sorted_desc[OF assms(2)]] klen
          knowledge_ratio_def)
qed

lemma stop_index_never_list_all:
  "list_all (\<lambda>k. \<not> crossed k) [1..<len] \<Longrightarrow> stop_index crossed len = len"
  by (rule stop_index_never) (simp add: list_all_iff)

lemma selectors_float_exhaust_whole_tally:
  assumes "0 < n_files" and "distinct (map fst authored)"
    and "list_all (\<lambda>k. finite_double (authorship_ratio n_files (sorted_desc authored) k))
           [1..<Suc (length authored)]"
    and "list_all (\<lambda>k. \<not> authorship_ratio n_files (sorted_desc authored) k < cl)
           [1..<length authored]"
    and "0 < kb_total" and "distinct (map fst kb)"
    and "list_all (\<lambda>k. finite_double (float_remaining kb_total (sorted_desc kb) k)
                      \<and> finite_double (knowledge_ratio kb_total (sorted_desc kb) k))
           [1..<Suc (length kb)]"
    and "list_all (\<lambda>k. \<not> knowledge_ratio kb_total (sorted_desc kb) k \<le> cl) [1..<length kb]"
  shows "compute_truck_factor_from_file_authorship_float n_files authored cl =
           Inr (authorship_entries n_files (sorted_desc authored))
       \<and> compute_truck_factor_from_knowledge_base_float kb_total kb cl =
           Inr (knowledge_entries kb_total (sorted_desc kb))"
proof -
  from assms(1) have nz: "n_files \<noteq> 0" by simp
  from assms(5) have kz: "kb_total \<noteq> 0" by simp
  have len: "length (sorted_desc authored) = length authored"
    by (rule mset_eq_length[OF mset_sorted_desc])
  have klen: "length (sorted_desc kb) = length kb"
    by (rule mset_eq_length[OF mset_sorted_desc])
  show ?thesis
    using file_authorship_float_stop_index[OF nz assms(2) assms(3), of cl]
      stop_index_never_list_all[OF assms(4)] len
      knowledge_base_float_stop_index[OF kz assms(6) assms(7), of cl]
      stop_index_never_list_all[OF assms(8)] klen
    by simp
qed

lemma upt_1_4: "[1..<Suc (Suc (Suc (Suc 0)))] = [Suc 0, Suc (Suc 0), Suc (Suc (Suc 0))]"
  by (simp add: upt_rec)

lemma upt_1_3': "[1..<Suc (Suc (Suc 0))] = [Suc 0, Suc (Suc 0)]"
  by (simp add: upt_rec)

text \<open>
  Claim C1. For a non-empty tally with distinct keys and a positive total, both selectors,
  run with Python's float arithmetic, walk the entries of the tally sorted descending by
  value (a permutation of the tally in which no entry has a greater value than an earlier
  one) and return them up to and including the first entry after which the ratio of the
  running remainder to the total crosses the critical loss; they return at least one entry,
  and the whole list when the ratio crosses at no entry before the last. The remainder
  starts at the total and each entry's value is subtracted from it; the file-authorship
  selector tests the ratio with \<open><\<close>, the knowledge selector with \<open>\<le>\<close>. Remainder and ratio
  are the values Python computes: an exact int subtraction and a rounded true division for
  the file counts, a rounded subtraction and a rounded division for the knowledge values.
  The floats of the walk are assumed finite.
\<close>

theorem selectors_stop_at_threshold:
  assumes "0 < n_files" and "distinct (map fst authored)" and "authored \<noteq> []"
    and "list_all (\<lambda>k. finite_double (authorship_ratio n_files (sorted_desc authored) k))
           [1..<Suc (length authored)]"
    and "0 < kb_total" and "distinct (map fst kb)" and "kb \<noteq> []"
    and "list_all (\<lambda>k. finite_double (float_remaining kb_total (sorted_desc kb) k)
                      \<and> finite_double (knowledge_ratio kb_total (sorted_desc kb) k))
           [1..<Suc (length kb)]"
  shows
    "compute_truck_factor_from_file_authorship_float n_files authored cl =
       Inr (authorship_entries n_files
              (take (stop_index (\<lambda>k. authorship_ratio n_files (sorted_desc authored) k < cl)
                       (length authored))
                 (sorted_desc authored)))
     \<and> compute_truck_factor_from_knowledge_base_float kb_total kb cl =
       Inr (knowledge_entries kb_total
              (take (stop_index (\<lambda>k. knowledge_ratio kb_total (sorted_desc kb) k \<le> cl)
                       (length kb))
                 (sorted_desc kb)))
     \<and> sorted_wrt (\<lambda>x y. snd y \<le> snd x) (sorted_desc authored)
     \<and> mset (sorted_desc authored) = mset authored
     \<and> sorted_wrt (\<lambda>x y. snd y \<le> snd x) (sorted_desc kb)
     \<and> mset (sorted_desc kb) = mset kb
     \<and> 0 < stop_index (\<lambda>k. authorship_ratio n_files (sorted_desc authored) k < cl)
             (length authored)
     \<and> 0 < stop_index (\<lambda>k. knowledge_ratio kb_total (sorted_desc kb) k \<le> cl) (length kb)"
proof -
  from assms(1) have nz: "n_files \<noteq> 0" by simp
  from assms(5) have kz: "kb_total \<noteq> 0" by simp
  from assms(3) have p1: "0 < length authored" by simp
  from assms(7) have p2: "0 < length kb" by simp
  show ?thesis
    using file_authorship_float_stop_index[OF nz assms(2) assms(4), of cl]
      knowledge_base_float_stop_index[OF kz assms(6) assms(8), of cl]
      stop_index_pos[OF p1] stop_index_pos[OF p2]
    by (simp add: sorted_desc_descending mset_sorted_desc)
qed

theorem selectors_stop_at_threshold_witness:
  "(0::int) < 100 \<and> distinct (map fst [(''B'', 25::int), (''A'', 60), (''C'', 15)])
   \<and> [(''B'', 25::int), (''A'', 60), (''C'', 15)] \<noteq> []
   \<and> (0::real) < 100 \<and> distinct (map fst [(''C'', 15::real), (''A'', 60), (''B'', 25)])
   \<and> [(''C'', 15::real), (''A'', 60), (''B'', 25)] \<noteq> []
   \<and> sorted_desc [(''B'', 25::int), (''A'', 60), (''C'', 15)] = [(''A'', 60), (''B'', 25), (''C'', 15)]
   \<and> sorted_desc [(''C'', 15::real), (''A'', 60), (''B'', 25)] = [(''A'', 60), (''B'', 25), (''C'', 15)]
   \<and> compute_truck_factor_from_file_authorship_float 100 [(''B'', 25), (''A'', 60), (''C'', 15)] (1/2) =
       Inr [\<lparr>f_author = ''A'', files_authored = 60, total_files = 100\<rparr>]
   \<and> compute_truck_factor_from_knowledge_base_float 100 [(''C'', 15), (''A'', 60), (''B'', 25)] (1/2) =
       Inr [\<lparr>k_author = ''A'', author_contribution = 60, total_knowledge = 100\<rparr>]"
proof -
  have h1: "(0::int) < 100" by simp
  have h2: "distinct (map fst [(''B'', 25::int), (''A'', 60), (''C'', 15)])" by simp
  have h3: "[(''B'', 25::int), (''A'', 60), (''C'', 15)] \<noteq> []" by simp
  have s1: "sorted_desc [(''B'', 25::int), (''A'', 60), (''C'', 15)] = [(''A'', 60), (''B'', 25), (''C'', 15)]"
    by (simp add: sorted_desc_def)
  have h4: "list_all (\<lambda>k. finite_double (authorship_ratio 100
               (sorted_desc [(''B'', 25::int), (''A'', 60), (''C'', 15)]) k))
           [1..<Suc (length [(''B'', 25::int), (''A'', 60), (''C'', 15)])]"
    by (simp add: s1 upt_1_4 authorship_ratio_def remaining_def finite_double_def rd_simps)
  have h5: "(0::real) < 100" by simp
  have h6: "distinct (map fst [(''C'', 15::real), (''A'', 60), (''B'', 25)])" by simp
  have h7: "[(''C'', 15::real), (''A'', 60), (''B'', 25)] \<noteq> []" by simp
  have s2: "sorted_desc [(''C'', 15::real), (''A'', 60), (''B'', 25)] = [(''A'', 60), (''B'', 25), (''C'', 15)]"
    by (simp add: sorted_desc_def)
  have h8: "list_all (\<lambda>k. finite_double (float_remaining 100
               (sorted_desc [(''C'', 15::real), (''A'', 60), (''B'', 25)]) k)
             \<and> finite_double (knowledge_ratio 100
               (sorted_desc [(''C'', 15::real), (''A'', 60), (''B'', 25)]) k))
           [1..<Suc (length [(''C'', 15::real), (''A'', 60), (''B'', 25)])]"
    by (simp add: s2 upt_1_4 knowledge_ratio_def float_remaining_def finite_double_def rd_simps)
  show ?thesis
    using selectors_stop_at_threshold[OF h1 h2 h3 h4 h5 h6 h7 h8, of "1/2"]
    by (simp add: s1 s2 stop_index_def upt_1_3' authorship_ratio_def knowledge_ratio_def
          float_remaining_def remaining_def authorship_entries_def knowledge_entries_def rd_simps)
qed

text \<open>
  At a ratio of exactly one half the two comparisons part: the file-authorship selector
  goes on to the next entry, the knowledge selector stops.
\<close>

lemma selector_float_asymmetry_example:
  "compute_truck_factor_from_file_authorship_float 100 [(''A'', 50), (''B'', 50)] (1/2) =
       Inr [\<lparr>f_author = ''A'', files_authored = 50, total_files = 100\<rparr>,
            \<lparr>f_author = ''B'', files_authored = 50, total_files = 100\<rparr>]
   \<and> compute_truck_factor_from_knowledge_base_float 100 [(''A'', 50), (''B'', 50)] (1/2) =
       Inr [\<lparr>k_author = ''A'', author_contribution = 50, total_knowledge = 100\<rparr>]"
  by (simp add: compute_truck_factor_from_file_authorship_float_def
        compute_truck_factor_from_knowledge_base_float_def sorted_desc_def dict_of_items_def
        int_true_divide_def float_sub_def float_div_def finite_double_def rd_simps)

text \<open>
  Rounding decides at the boundary. In the first tally the float subtraction rounds the
  remainder \<open>8 + 1 / 2 ^ 50\<close> to \<open>8\<close>, so the ratio is one half and the knowledge selector
  stops after the first entry, where exact arithmetic goes on to the second. In the second
  tally the true division rounds a quotient just below one half to one half, so the
  file-authorship selector goes on, where exact arithmetic stops.
\<close>

lemma knowledge_selector_rounding_example:
  "compute_truck_factor_from_knowledge_base_float 16
       [(''A'', 8 - 1 / 2 ^ 50), (''B'', 4), (''C'', 4)] (1/2) =
     Inr [\<lparr>k_author = ''A'', author_contribution = 8 - 1 / 2 ^ 50, total_knowledge = 16\<rparr>]
   \<and> compute_truck_factor_from_knowledge_base 16
       [(''A'', 8 - 1 / 2 ^ 50), (''B'', 4), (''C'', 4)] (1/2) =
     Inr [\<lparr>k_author = ''A'', author_contribution = 8 - 1 / 2 ^ 50, total_knowledge = 16\<rparr>,
          \<lparr>k_author = ''B'', author_contribution = 4, total_knowledge = 16\<rparr>]"
  by (simp add: compute_truck_factor_from_knowledge_base_float_def
        compute_truck_factor_from_knowledge_base_def sorted_desc_def dict_of_items_def
        float_sub_def float_div_def finite_double_def rd_simps round_double_tie_at_8_simp)

lemma authorship_selector_rounding_example:
  "compute_truck_factor_from_file_authorship_float 72057594037927936
       [(''A'', 36028797018963969), (''B'', 36028797018963967)] (1/2) =
     Inr [\<lparr>f_author = ''A'', files_authored = 36028797018963969, total_files = 72057594037927936\<rparr>,
          \<lparr>f_author = ''B'', files_authored = 36028797018963967, total_files = 72057594037927936\<rparr>]
   \<and> compute_truck_factor_from_file_authorship 72057594037927936
       [(''A'', 36028797018963969), (''B'', 36028797018963967)] (1/2) =
     Inr [\<lparr>f_author = ''A'', files_authored = 36028797018963969, total_files = 72057594037927936\<rparr>]"
  by (simp add: compute_truck_factor_from_file_authorship_float_def
        compute_truck_factor_from_file_authorship_def sorted_desc_def dict_of_items_def
        int_true_divide_def finite_double_def rd_simps round_double_below_half)

subsection \<open>The float tallies depend on the order of the files\<close>

text \<open>
  With float additions the knowledge tally is not independent of the order of the files.
  Three per-file results, folded in two orders, give the same authorship tally and
  knowledge values for one identity that differ by \<open>1 / 2 ^ 29\<close>, more than \<open>1 / 10 ^ 9\<close>.
\<close>

theorem float_tallies_depend_on_order_counterexample:
  "mset [float_result_one, float_result_two, float_result_three] =
     mset [float_result_two, float_result_three, float_result_one]
   \<and> fold_results_float [float_result_one, float_result_two, float_result_three] ([], []) =
       Inr ([(''ann@x.com'', 2), (''bob@x.com'', 1)],
            [(''ann@x.com'', 8388610), (''bob@x.com'', 3)])
   \<and> fold_results_float [float_result_two, float_result_three, float_result_one] ([], []) =
       Inr ([(''ann@x.com'', 2), (''bob@x.com'', 1)],
            [(''ann@x.com'', 8388610 + 1 / 2 ^ 29), (''bob@x.com'', 3)])
   \<and> 1 / 10 ^ 9 < \<bar>(8388610 + 1 / 2 ^ 29) - (8388610 :: real)\<bar>"
proof -
  have p: "mset [float_result_one, float_result_two, float_result_three] =
     mset [float_result_two, float_result_three, float_result_one]"
    by (simp add: add_mset_commute)
  have a: "fold_results_float [float_result_one, float_result_two, float_result_three] ([], []) =
       Inr ([(''ann@x.com'', 2), (''bob@x.com'', 1)],
            [(''ann@x.com'', 8388610), (''bob@x.com'', 3)])"
    by (simp add: float_result_one_def float_result_two_def float_result_three_def
          map_add_or_increment_authorship_def float_add_def finite_double_def round_double_sums)
  have b: "fold_results_float [float_result_two, float_result_three, float_result_one] ([], []) =
       Inr ([(''ann@x.com'', 2), (''bob@x.com'', 1)],
            [(''ann@x.com'', 8388610 + 1 / 2 ^ 29), (''bob@x.com'', 3)])"
    by (simp add: float_result_one_def float_result_two_def float_result_three_def
          map_add_or_increment_authorship_def float_add_def finite_double_def round_double_sums)
  have c: "1 / 10 ^ 9 < \<bar>(8388610 + 1 / 2 ^ 29) - (8388610 :: real)\<bar>" by simp
  from p a b c show ?thesis by blast
qed

end
